theory Spec2Isabelle
  imports Complex_Main "HOL-Library.AList"
begin

section \<open>JSON values as Python sees them\<close>

text \<open>
  The module \<^verbatim>\<open>tools/api_tools.py\<close> works on values that \<^verbatim>\<open>json\<close> parsing produced:
  \<^verbatim>\<open>None\<close>, \<^verbatim>\<open>bool\<close>, \<^verbatim>\<open>int\<close>, \<^verbatim>\<open>float\<close>, \<^verbatim>\<open>str\<close>, \<^verbatim>\<open>list\<close> and \<^verbatim>\<open>dict\<close> with string keys.
  A \<^verbatim>\<open>dict\<close> is an association list in insertion order; a Python dict has each key once,
  and every lookup below reads the first entry of a key. Strings are \<open>char list\<close>
  (one \<open>char\<close> per character, so ASCII text); floats are finite and carried by their value.
\<close>

datatype json =
    JNull
  | JBool bool
  | JInt int
  | JFloat rat
  | JString string
  | JArray "json list"
  | JObject "(string \<times> json) list"

text \<open>The exceptions that the modelled code can raise.\<close>

datatype error = TypeError | KeyError | IndexError | AttributeError

type_synonym raw = "(string \<times> json) list"

text \<open>\<^verbatim>\<open>d.get(k, default)\<close>; \<^verbatim>\<open>d.get(k)\<close> is \<open>get d k JNull\<close>.\<close>

definition get :: "raw \<Rightarrow> string \<Rightarrow> json \<Rightarrow> json" where
  "get d k dflt = (case map_of d k of Some v \<Rightarrow> v | None \<Rightarrow> dflt)"

text \<open>Truth value of an object, as \<^verbatim>\<open>or\<close> tests it.\<close>

fun truthy :: "json \<Rightarrow> bool" where
  "truthy JNull = False"
| "truthy (JBool b) = b"
| "truthy (JInt i) = (i \<noteq> 0)"
| "truthy (JFloat r) = (r \<noteq> 0)"
| "truthy (JString s) = (s \<noteq> [])"
| "truthy (JArray xs) = (xs \<noteq> [])"
| "truthy (JObject kvs) = (kvs \<noteq> [])"

text \<open>\<^verbatim>\<open>a or b\<close>, for operands whose evaluation cannot raise.\<close>

definition py_or :: "json \<Rightarrow> json \<Rightarrow> json" where
  "py_or a b = (if truthy a then a else b)"

text \<open>
  \<^verbatim>\<open>[x for x in v]\<close>: a string yields its characters, a list its elements, a dict its keys;
  anything else is not iterable.
\<close>

fun iter :: "json \<Rightarrow> error + json list" where
  "iter (JString s) = Inr (map (\<lambda>c. JString [c]) s)"
| "iter (JArray xs) = Inr xs"
| "iter (JObject kvs) = Inr (map (\<lambda>kv. JString (fst kv)) kvs)"
| "iter JNull = Inl TypeError"
| "iter (JBool b) = Inl TypeError"
| "iter (JInt i) = Inl TypeError"
| "iter (JFloat r) = Inl TypeError"

text \<open>\<^verbatim>\<open>len(v)\<close>.\<close>

fun len :: "json \<Rightarrow> error + nat" where
  "len (JString s) = Inr (length s)"
| "len (JArray xs) = Inr (length xs)"
| "len (JObject kvs) = Inr (length kvs)"
| "len JNull = Inl TypeError"
| "len (JBool b) = Inl TypeError"
| "len (JInt i) = Inl TypeError"
| "len (JFloat r) = Inl TypeError"

text \<open>
  \<^verbatim>\<open>v[0]\<close>: the first character of a string, the first element of a list, \<^verbatim>\<open>IndexError\<close>
  when either is empty; a dict parsed from JSON has no key \<^verbatim>\<open>0\<close>, so \<^verbatim>\<open>KeyError\<close>.
\<close>

fun subscript0 :: "json \<Rightarrow> error + json" where
  "subscript0 (JString s) = (case s of [] \<Rightarrow> Inl IndexError | c # _ \<Rightarrow> Inr (JString [c]))"
| "subscript0 (JArray xs) = (case xs of [] \<Rightarrow> Inl IndexError | x # _ \<Rightarrow> Inr x)"
| "subscript0 (JObject kvs) = Inl KeyError"
| "subscript0 JNull = Inl TypeError"
| "subscript0 (JBool b) = Inl TypeError"
| "subscript0 (JInt i) = Inl TypeError"
| "subscript0 (JFloat r) = Inl TypeError"

text \<open>\<^verbatim>\<open>v[k]\<close> for a string key \<open>k\<close>.\<close>

fun subscript :: "json \<Rightarrow> string \<Rightarrow> error + json" where
  "subscript (JObject kvs) k = (case map_of kvs k of None \<Rightarrow> Inl KeyError | Some v \<Rightarrow> Inr v)"
| "subscript v k = Inl TypeError"


section \<open>Normalization: the two \<^verbatim>\<open>item_info\<close> dict displays\<close>

text \<open>
  The entry \<^verbatim>\<open>"contributor[s]"\<close> (lines 60 and 150):
  \<^verbatim>\<open>[c for c in item.get('contributors', "") or item.get("contributor", "")]\<close>.
\<close>

definition contributors :: "raw \<Rightarrow> error + json" where
  "contributors item =
     (case iter (py_or (get item ''contributors'' (JString ''''))
                       (get item ''contributor'' (JString ''''))) of
        Inl e \<Rightarrow> Inl e
      | Inr cs \<Rightarrow> Inr (JArray cs))"

text \<open>
  The entry \<^verbatim>\<open>"thumbnail"\<close> (lines 64 and 153):
  \<^verbatim>\<open>item.get("image_url", ["None"])[0] if 0 < len(item.get("image_url")) else item.get("image_url", ["None"])\<close>.
  The condition is evaluated first, and its \<^verbatim>\<open>get\<close> has no default.
\<close>

definition thumbnail :: "raw \<Rightarrow> error + json" where
  "thumbnail item =
     (case len (get item ''image_url'' JNull) of
        Inl e \<Rightarrow> Inl e
      | Inr n \<Rightarrow>
          if 0 < n then subscript0 (get item ''image_url'' (JArray [JString ''None'']))
          else Inr (get item ''image_url'' (JArray [JString ''None''])))"

text \<open>
  The dict display of \<^verbatim>\<open>process_results\<close> (lines 148 to 157). Its entries are evaluated in
  order, so an exception of \<^verbatim>\<open>"contributor[s]"\<close> comes before one of \<^verbatim>\<open>"thumbnail"\<close>.
\<close>

definition search_item_info :: "raw \<Rightarrow> error + json" where
  "search_item_info item =
     (case contributors item of
        Inl e \<Rightarrow> Inl e
      | Inr cs \<Rightarrow>
          (case thumbnail item of
             Inl e \<Rightarrow> Inl e
           | Inr th \<Rightarrow>
               Inr (JObject
                 [(''title'', get item ''title'' (JString '''')),
                  (''contributor[s]'', cs),
                  (''description'', get item ''description'' (JString '''')),
                  (''link'', get item ''id'' (JString '''')),
                  (''thumbnail'', th),
                  (''digitized'', get item ''digitized'' (JBool False)),
                  (''genre'', get item ''genre'' JNull),
                  (''subjects'', get item ''subject'' JNull)])))"

text \<open>
  The dict display of \<^verbatim>\<open>get_item_details\<close> (lines 58 to 68), with its \<^verbatim>\<open>"date"\<close>. There
  \<^verbatim>\<open>item\<close> is \<^verbatim>\<open>response['item']\<close>, any JSON value: only a dict has \<^verbatim>\<open>.get\<close>.
\<close>

definition detail_item_info :: "json \<Rightarrow> error + json" where
  "detail_item_info v =
     (case v of
        JObject item \<Rightarrow>
          (case contributors item of
             Inl e \<Rightarrow> Inl e
           | Inr cs \<Rightarrow>
               (case thumbnail item of
                  Inl e \<Rightarrow> Inl e
                | Inr th \<Rightarrow>
                    Inr (JObject
                      [(''title'', get item ''title'' (JString '''')),
                       (''contributor[s]'', cs),
                       (''description'', get item ''description'' (JString '''')),
                       (''date'', get item ''date'' (JString '''')),
                       (''link'', get item ''id'' (JString '''')),
                       (''thumbnail'', th),
                       (''digitized'', get item ''digitized'' (JBool False)),
                       (''genre'', get item ''genre'' JNull),
                       (''subjects'', get item ''subject'' JNull)])))
      | _ \<Rightarrow> Inl AttributeError)"

text \<open>Reading one entry of a normalized record.\<close>

definition field :: "string \<Rightarrow> json \<Rightarrow> json option" where
  "field k r = (case r of JObject kvs \<Rightarrow> map_of kvs k | _ \<Rightarrow> None)"


section \<open>The in-memory mapping \<^verbatim>\<open>items_info\<close>\<close>

text \<open>
  \<^verbatim>\<open>items_info\<close> starts as whatever \<^verbatim>\<open>json.load\<close> returned (any JSON value) or as \<^verbatim>\<open>{}\<close>,
  and is then assigned to with \<^verbatim>\<open>items_info[item['id']] = item_info\<close>, where the key is
  any JSON value. So the dict in memory may hold keys that are not strings.
\<close>

datatype items_info = Dict "(json \<times> json) list" | NonDict json

definition of_json :: "json \<Rightarrow> items_info" where
  "of_json v = (case v of JObject kvs \<Rightarrow> Dict (map (\<lambda>kv. (JString (fst kv), snd kv)) kvs)
                | _ \<Rightarrow> NonDict v)"

text \<open>Only \<^verbatim>\<open>list\<close> and \<^verbatim>\<open>dict\<close> are unhashable among JSON values.\<close>

fun hashable :: "json \<Rightarrow> bool" where
  "hashable (JArray xs) = False"
| "hashable (JObject kvs) = False"
| "hashable v = True"

text \<open>
  Equality of dict keys: \<^verbatim>\<open>True == 1 == 1.0\<close>, numbers compare by value, everything else by
  type and content.
\<close>

fun number :: "json \<Rightarrow> rat option" where
  "number (JBool b) = Some (if b then 1 else 0)"
| "number (JInt i) = Some (of_int i)"
| "number (JFloat r) = Some r"
| "number v = None"

definition key_eq :: "json \<Rightarrow> json \<Rightarrow> bool" where
  "key_eq a b = (case (number a, number b) of
                   (Some x, Some y) \<Rightarrow> x = y
                 | (None, None) \<Rightarrow> a = b
                 | _ \<Rightarrow> False)"

text \<open>\<^verbatim>\<open>d[k] = v\<close> on a dict: an equal key keeps its place and its first spelling.\<close>

fun dict_set :: "(json \<times> json) list \<Rightarrow> json \<Rightarrow> json \<Rightarrow> (json \<times> json) list" where
  "dict_set [] k v = [(k, v)]"
| "dict_set ((k', v') # ps) k v =
     (if key_eq k' k then (k', v) # ps else (k', v') # dict_set ps k v)"

text \<open>\<^verbatim>\<open>d[k]\<close> read back, for stating what a mapping holds.\<close>

fun dict_lookup :: "(json \<times> json) list \<Rightarrow> json \<Rightarrow> json option" where
  "dict_lookup [] k = None"
| "dict_lookup ((k', v') # ps) k = (if key_eq k' k then Some v' else dict_lookup ps k)"

text \<open>A list index: \<^verbatim>\<open>int\<close>, or \<^verbatim>\<open>bool\<close> (a subclass of \<^verbatim>\<open>int\<close>).\<close>

fun list_index :: "json \<Rightarrow> int option" where
  "list_index (JInt i) = Some i"
| "list_index (JBool b) = Some (if b then 1 else 0)"
| "list_index v = None"

text \<open>
  \<^verbatim>\<open>items_info[k] = v\<close>. On a dict the key must be hashable. On a list the key must be an
  integer in range (negative indices count from the end). Nothing else that JSON parsing
  returns supports item assignment.
\<close>

fun setitem :: "items_info \<Rightarrow> json \<Rightarrow> json \<Rightarrow> error + items_info" where
  "setitem (Dict d) k v = (if hashable k then Inr (Dict (dict_set d k v)) else Inl TypeError)"
| "setitem (NonDict (JArray xs)) k v =
     (case list_index k of
        None \<Rightarrow> Inl TypeError
      | Some i \<Rightarrow>
          if 0 \<le> i \<and> i < int (length xs) then Inr (NonDict (JArray (xs[nat i := v])))
          else if i < 0 \<and> - int (length xs) \<le> i
            then Inr (NonDict (JArray (xs[nat (int (length xs) + i) := v])))
          else Inl IndexError)"
| "setitem (NonDict w) k v = Inl TypeError"


section \<open>The bucket files\<close>

text \<open>
  A file is known by what \<^verbatim>\<open>json.load\<close> does on it: it is not there, its text does not parse,
  or its text parses to a value. Directory creation and writing are taken to succeed.
\<close>

datatype bucket_file = Absent | Invalid | Parsed json

type_synonym files = "string \<Rightarrow> bucket_file"

text \<open>Lines 138 to 142 and 51 to 55: both read failures give \<^verbatim>\<open>{}\<close>.\<close>

fun load :: "bucket_file \<Rightarrow> items_info" where
  "load Absent = Dict []"
| "load Invalid = Dict []"
| "load (Parsed v) = of_json v"

text \<open>
  \<^verbatim>\<open>json.dump\<close> writes a key that is not a string as text: \<^verbatim>\<open>true\<close>, \<^verbatim>\<open>false\<close>, \<^verbatim>\<open>null\<close>, the
  decimal digits of an \<^verbatim>\<open>int\<close>, the \<^verbatim>\<open>repr\<close> of a \<^verbatim>\<open>float\<close>. The last is the library's and is
  taken as the parameter \<open>float_repr\<close>.
\<close>

function str_of_nat :: "nat \<Rightarrow> string" where
  "str_of_nat n =
     (if n < 10 then [char_of (48 + n)]
      else str_of_nat (n div 10) @ [char_of (48 + n mod 10)])"
  by pat_completeness auto
termination
  by (relation "measure id") auto

declare str_of_nat.simps [simp del]

definition str_of_int :: "int \<Rightarrow> string" where
  "str_of_int i = (if i < 0 then CHR ''-'' # str_of_nat (nat (- i)) else str_of_nat (nat i))"

fun key_str :: "(rat \<Rightarrow> string) \<Rightarrow> json \<Rightarrow> string" where
  "key_str float_repr (JString s) = s"
| "key_str float_repr (JFloat r) = float_repr r"
| "key_str float_repr (JBool b) = (if b then ''true'' else ''false'')"
| "key_str float_repr JNull = ''null''"
| "key_str float_repr (JInt i) = str_of_int i"
| "key_str float_repr v = []"

text \<open>
  What the written file parses to. The text lists the entries in order under their
  written keys; \<^verbatim>\<open>json.load\<close> builds a dict from them one by one, so of two entries written
  under one key the first gives the place and the last the value.
\<close>

definition dumped :: "(rat \<Rightarrow> string) \<Rightarrow> items_info \<Rightarrow> json" where
  "dumped float_repr m =
     (case m of
        Dict d \<Rightarrow> JObject (foldl (\<lambda>acc kv. AList.update (key_str float_repr (fst kv)) (snd kv) acc) [] d)
      | NonDict v \<Rightarrow> v)"


section \<open>Bucket paths\<close>

text \<open>\<^verbatim>\<open>s.lower()\<close> on ASCII and \<^verbatim>\<open>s.replace(" ", "_")\<close>.\<close>

definition lower_char :: "char \<Rightarrow> char" where
  "lower_char c = (let n = (of_char c :: nat) in if 65 \<le> n \<and> n \<le> 90 then char_of (n + 32) else c)"

definition bucket_key :: "string \<Rightarrow> string" where
  "bucket_key s = map (\<lambda>c. if c = CHR '' '' then CHR ''_'' else c) (map lower_char s)"

text \<open>\<^verbatim>\<open>os.path.join(a, b)\<close> on POSIX.\<close>

definition path_join :: "string \<Rightarrow> string \<Rightarrow> string" where
  "path_join a b =
     (if b \<noteq> [] \<and> hd b = CHR ''/'' then b
      else if a = [] \<or> last a = CHR ''/'' then a @ b
      else a @ ''/'' @ b)"

definition query_file :: "string \<Rightarrow> string" where
  "query_file query = path_join (path_join ''queries'' (bucket_key query)) ''items_info.json''"



section \<open>\<^verbatim>\<open>process_results\<close>\<close>

text \<open>
  \<^verbatim>\<open>results\<close> is the list \<^verbatim>\<open>response['results']\<close> that both callers pass; its elements are any
  JSON values.

  One turn of the loop (lines 145 to 158): \<^verbatim>\<open>item['id']\<close> is read first, then the dict
  display is built, then the entry is assigned. \<^verbatim>\<open>item['id']\<close> on a value that is not a dict
  is a \<^verbatim>\<open>TypeError\<close>.
\<close>

definition loop_body :: "json \<Rightarrow> json list \<times> items_info \<Rightarrow> error + json list \<times> items_info" where
  "loop_body item st =
     (case subscript item ''id'' of
        Inl e \<Rightarrow> Inl e
      | Inr k \<Rightarrow>
          (case item of
             JObject d \<Rightarrow>
               (case search_item_info d of
                  Inl e \<Rightarrow> Inl e
                | Inr item_info \<Rightarrow>
                    (case setitem (snd st) k item_info of
                       Inl e \<Rightarrow> Inl e
                     | Inr m \<Rightarrow> Inr (fst st @ [k], m)))
           | _ \<Rightarrow> Inl TypeError))"

fun loop :: "json list \<Rightarrow> json list \<times> items_info \<Rightarrow> error + json list \<times> items_info" where
  "loop [] st = Inr st"
| "loop (item # results) st =
     (case loop_body item st of Inl e \<Rightarrow> Inl e | Inr st' \<Rightarrow> loop results st')"

text \<open>
  The whole function: the bucket file is read, the loop runs, and only then the file is
  written (lines 160 and 161) and \<^verbatim>\<open>(item_ids, items_info)\<close> returned. An exception in the
  loop leaves the files as they were.
\<close>

definition process_results ::
  "(rat \<Rightarrow> string) \<Rightarrow> string \<Rightarrow> json list \<Rightarrow> files \<Rightarrow> (error + json list \<times> items_info) \<times> files" where
  "process_results float_repr query results fs =
     (let file_path = query_file query;
          items_info = load (fs file_path)
      in case loop results ([], items_info) of
           Inl e \<Rightarrow> (Inl e, fs)
         | Inr (item_ids, items_info') \<Rightarrow>
             (Inr (item_ids, items_info'),
              fs(file_path := Parsed (dumped float_repr items_info'))))"


section \<open>\<^verbatim>\<open>get_item_details\<close>\<close>






section \<open>Predicates for stating the properties\<close>

text \<open>The record \<open>item\<close> has an \<^verbatim>\<open>id\<close> that is the dict key \<open>k\<close>.\<close>

definition id_matches :: "json \<Rightarrow> json \<Rightarrow> bool" where
  "id_matches k item = (case subscript item ''id'' of Inr k' \<Rightarrow> key_eq k' k | Inl e \<Rightarrow> False)"

text \<open>
  The record can be merged into a dict: it is a dict itself, has a hashable \<^verbatim>\<open>id\<close>, and its dict
  display raises nothing.
\<close>

definition mergeable :: "json \<Rightarrow> bool" where
  "mergeable item =
     (case item of
        JObject d \<Rightarrow>
          (case map_of d ''id'' of
             Some k \<Rightarrow> hashable k \<and> (case search_item_info d of Inr r \<Rightarrow> True | Inl e \<Rightarrow> False)
           | None \<Rightarrow> False)
      | _ \<Rightarrow> False)"

text \<open>No two keys of a dict are equal; Python keeps every dict so.\<close>

fun dict_distinct :: "(json \<times> json) list \<Rightarrow> bool" where
  "dict_distinct [] = True"
| "dict_distinct (p # ps) = ((\<forall>k' \<in> fst ` set ps. \<not> key_eq (fst p) k') \<and> dict_distinct ps)"

text \<open>Every \<^verbatim>\<open>id\<close> in the batch is a string.\<close>

fun is_string :: "json \<Rightarrow> bool" where
  "is_string (JString s) = True"
| "is_string v = False"

definition string_ids :: "json list \<Rightarrow> bool" where
  "string_ids results =
     list_all (\<lambda>item. case subscript item ''id'' of Inr k \<Rightarrow> is_string k | Inl e \<Rightarrow> True) results"


section \<open>Properties of normalization\<close>

lemma thumbnail_no_index_error: "thumbnail item \<noteq> Inl IndexError"
proof (cases "get item ''image_url'' JNull")
  case (JString s)
  then show ?thesis by (cases s) (auto simp: thumbnail_def get_def split: option.splits)
next
  case (JArray xs)
  then show ?thesis by (cases xs) (auto simp: thumbnail_def get_def split: option.splits)
qed (auto simp: thumbnail_def get_def split: option.splits)

lemma contributors_no_index_error: "contributors item \<noteq> Inl IndexError"
  by (cases "py_or (get item ''contributors'' (JString '''')) (get item ''contributor'' (JString ''''))")
     (simp_all add: contributors_def)

lemma search_item_info_no_index_error: "search_item_info item \<noteq> Inl IndexError"
  using thumbnail_no_index_error [of item] contributors_no_index_error [of item]
  by (auto simp: search_item_info_def split: sum.splits)

lemma detail_item_info_no_index_error: "detail_item_info v \<noteq> Inl IndexError"
  using thumbnail_no_index_error contributors_no_index_error
  by (auto simp: detail_item_info_def split: sum.splits json.splits)

lemma thumbnail_empty_list:
  "map_of item ''image_url'' = Some (JArray []) \<Longrightarrow> thumbnail item = Inr (JArray [])"
  by (simp add: thumbnail_def get_def)

text \<open>
  Claim C1, as the code has it. For every raw record whose \<^verbatim>\<open>image_url\<close> is present and is the
  empty list, the thumbnail expression evaluates without an exception to the raw value, the
  empty list (not to the string \<^verbatim>\<open>"None"\<close>); whenever either dict display yields a record, its
  thumbnail is the empty list; a record is yielded whenever the contributors expression does
  not raise; and no \<^verbatim>\<open>IndexError\<close> occurs.
\<close>

theorem empty_image_url_gives_empty_thumbnail:
  assumes "map_of item ''image_url'' = Some (JArray [])"
  shows "thumbnail item = Inr (JArray []) \<and>
         (\<forall>r. search_item_info item = Inr r \<longrightarrow> field ''thumbnail'' r = Some (JArray [])) \<and>
         (\<forall>r. detail_item_info (JObject item) = Inr r \<longrightarrow> field ''thumbnail'' r = Some (JArray [])) \<and>
         (\<forall>cs. contributors item = Inr cs \<longrightarrow>
               (\<exists>r. search_item_info item = Inr r) \<and> (\<exists>r. detail_item_info (JObject item) = Inr r)) \<and>
         search_item_info item \<noteq> Inl IndexError \<and>
         detail_item_info (JObject item) \<noteq> Inl IndexError"
proof -
  have th: "thumbnail item = Inr (JArray [])"
    using assms by (rule thumbnail_empty_list)
  have s: "\<forall>r. search_item_info item = Inr r \<longrightarrow> field ''thumbnail'' r = Some (JArray [])"
    using th by (auto simp: search_item_info_def field_def split: sum.splits)
  have d: "\<forall>r. detail_item_info (JObject item) = Inr r \<longrightarrow> field ''thumbnail'' r = Some (JArray [])"
    using th by (auto simp: detail_item_info_def field_def split: sum.splits)
  have ok: "\<forall>cs. contributors item = Inr cs \<longrightarrow>
               (\<exists>r. search_item_info item = Inr r) \<and> (\<exists>r. detail_item_info (JObject item) = Inr r)"
    using th by (simp add: search_item_info_def detail_item_info_def)
  show ?thesis
    using th s d ok search_item_info_no_index_error detail_item_info_no_index_error by blast
qed

theorem empty_image_url_gives_empty_thumbnail_witness:
  "map_of [(''id'', JString ''a''), (''image_url'', JArray [])] ''image_url'' = Some (JArray []) \<and>
   search_item_info [(''id'', JString ''a''), (''image_url'', JArray [])] =
     Inr (JObject
       [(''title'', JString ''''), (''contributor[s]'', JArray []), (''description'', JString ''''),
        (''link'', JString ''a''), (''thumbnail'', JArray []), (''digitized'', JBool False),
        (''genre'', JNull), (''subjects'', JNull)]) \<and>
   field ''thumbnail'' (JObject
       [(''title'', JString ''''), (''contributor[s]'', JArray []), (''description'', JString ''''),
        (''link'', JString ''a''), (''thumbnail'', JArray []), (''digitized'', JBool False),
        (''genre'', JNull), (''subjects'', JNull)]) = Some (JArray [])"
  using empty_image_url_gives_empty_thumbnail [of "[(''id'', JString ''a''), (''image_url'', JArray [])]"]
  by (simp add: search_item_info_def contributors_def thumbnail_def get_def py_or_def field_def)

text \<open>
  Claim C1 as stated fails: on the record \<^verbatim>\<open>{"image_url": []}\<close> both dict displays yield a record
  whose thumbnail is the empty list, which is not the string \<^verbatim>\<open>"None"\<close>.
\<close>

theorem empty_image_url_thumbnail_is_not_None:
  "search_item_info [(''image_url'', JArray [])] =
     Inr (JObject
       [(''title'', JString ''''), (''contributor[s]'', JArray []), (''description'', JString ''''),
        (''link'', JString ''''), (''thumbnail'', JArray []), (''digitized'', JBool False),
        (''genre'', JNull), (''subjects'', JNull)]) \<and>
   detail_item_info (JObject [(''image_url'', JArray [])]) =
     Inr (JObject
       [(''title'', JString ''''), (''contributor[s]'', JArray []), (''description'', JString ''''),
        (''date'', JString ''''),
        (''link'', JString ''''), (''thumbnail'', JArray []), (''digitized'', JBool False),
        (''genre'', JNull), (''subjects'', JNull)]) \<and>
   JArray [] \<noteq> JString ''None''"
  by (simp add: search_item_info_def detail_item_info_def contributors_def thumbnail_def get_def py_or_def)

text \<open>
  Claim C2 (normalization never raises, in particular when \<^verbatim>\<open>image_url\<close> is absent) against the
  code: on \<^verbatim>\<open>{"id": "a", "title": "T"}\<close>, with no \<^verbatim>\<open>image_url\<close>, both dict displays raise
  \<^verbatim>\<open>TypeError\<close> (\<^verbatim>\<open>len(None)\<close>), and \<^verbatim>\<open>process_results\<close> raises it and writes nothing.
\<close>

theorem absent_image_url_raises_TypeError:
  "search_item_info [(''id'', JString ''a''), (''title'', JString ''T'')] = Inl TypeError \<and>
   detail_item_info (JObject [(''id'', JString ''a''), (''title'', JString ''T'')]) = Inl TypeError \<and>
   process_results float_repr query [JObject [(''id'', JString ''a''), (''title'', JString ''T'')]] fs
     = (Inl TypeError, fs)"
  by (simp add: search_item_info_def detail_item_info_def contributors_def thumbnail_def get_def py_or_def
       process_results_def loop_body_def)

text \<open>
  Claim C3 (the empty record normalizes to the default record) against the code: the dict
  display of \<^verbatim>\<open>process_results\<close> raises \<^verbatim>\<open>TypeError\<close> on \<^verbatim>\<open>{}\<close>, and \<^verbatim>\<open>process_results\<close> itself
  raises \<^verbatim>\<open>KeyError\<close> at \<^verbatim>\<open>item['id']\<close> before it.
\<close>

theorem empty_record_raises:
  "search_item_info [] = Inl TypeError \<and>
   process_results float_repr query [JObject []] fs = (Inl KeyError, fs)"
  by (simp add: search_item_info_def contributors_def thumbnail_def get_def py_or_def
       process_results_def loop_body_def)







section \<open>Dict keys, assignment and lookup\<close>

lemma key_eq_refl: "key_eq a a"
  by (cases "number a") (simp_all add: key_eq_def)

lemma key_eq_sym: "key_eq a b \<Longrightarrow> key_eq b a"
  by (cases "number a"; cases "number b") (simp_all add: key_eq_def)

lemma key_eq_trans: "key_eq a b \<Longrightarrow> key_eq b c \<Longrightarrow> key_eq a c"
  by (cases "number a"; cases "number b"; cases "number c") (simp_all add: key_eq_def)

lemma key_eq_JString: "key_eq k (JString s) \<longleftrightarrow> k = JString s"
  by (cases k) (auto simp: key_eq_def)

lemma key_eq_JString': "key_eq (JString s) k \<longleftrightarrow> k = JString s"
  by (cases k) (auto simp: key_eq_def)

lemma dict_lookup_None_iff: "dict_lookup d k = None \<longleftrightarrow> (\<forall>k' \<in> fst ` set d. \<not> key_eq k' k)"
  by (induction d) (auto split: if_splits)

lemma keys_dict_set:
  "map fst (dict_set d k v) = (if \<exists>k' \<in> fst ` set d. key_eq k' k then map fst d else map fst d @ [k])"
proof (induction d)
  case Nil
  show ?case by simp
next
  case (Cons p ps)
  obtain k0 v0 where p: "p = (k0, v0)" by (cases p)
  show ?case
  proof (cases "key_eq k0 k")
    case True
    then show ?thesis by (auto simp: p)
  next
    case False
    have "(\<exists>k'\<in>fst ` set (p # ps). key_eq k' k) = (\<exists>k'\<in>fst ` set ps. key_eq k' k)"
      using False by (simp add: p)
    then show ?thesis using False Cons.IH by (simp add: p)
  qed
qed

lemma dict_lookup_dict_set:
  "dict_lookup (dict_set d k' v) k = (if key_eq k' k then Some v else dict_lookup d k)"
proof (induction d)
  case Nil
  show ?case by simp
next
  case (Cons p ps)
  obtain k0 v0 where p: "p = (k0, v0)" by (cases p)
  show ?case
  proof (cases "key_eq k0 k'")
    case True
    then have "key_eq k0 k \<longleftrightarrow> key_eq k' k"
      using key_eq_trans key_eq_sym by blast
    with True show ?thesis by (simp add: p)
  next
    case False
    then have "key_eq k' k \<Longrightarrow> \<not> key_eq k0 k"
      using key_eq_trans key_eq_sym by blast
    with False Cons.IH show ?thesis by (simp add: p)
  qed
qed

lemma keys_dict_set_subset: "fst ` set (dict_set d k v) \<subseteq> insert k (fst ` set d)"
proof -
  have "set (map fst (dict_set d k v)) \<subseteq> insert k (set (map fst d))"
    unfolding keys_dict_set by auto
  then show ?thesis by simp
qed

lemma dict_distinct_dict_set: "dict_distinct d \<Longrightarrow> dict_distinct (dict_set d k v)"
proof (induction d)
  case Nil then show ?case by simp
next
  case (Cons p ps)
  obtain k0 v0 where p: "p = (k0, v0)" by (cases p)
  show ?case
  proof (cases "key_eq k0 k")
    case True
    with Cons.prems show ?thesis by (simp add: p)
  next
    case False
    have "\<forall>k' \<in> insert k (fst ` set ps). \<not> key_eq k0 k'"
      using False Cons.prems by (simp add: p)
    then have "\<forall>k' \<in> fst ` set (dict_set ps k v). \<not> key_eq k0 k'"
      using keys_dict_set_subset[of ps k v] by blast
    with False Cons show ?thesis by (simp add: p)
  qed
qed


lemma dict_eqI:
  "map fst d = map fst d' \<Longrightarrow> dict_distinct d \<Longrightarrow> (\<And>k. dict_lookup d k = dict_lookup d' k) \<Longrightarrow> d = d'"
proof (induction d arbitrary: d')
  case Nil then show ?case by simp
next
  case (Cons p ps)
  obtain k0 v0 where p: "p = (k0, v0)" by (cases p)
  from Cons.prems(1) obtain v0' ps' where d': "d' = (k0, v0') # ps'" "map fst ps = map fst ps'"
    by (cases d') (auto simp: p)
  have keys: "fst ` set ps = fst ` set ps'" using d'(2) by (metis list.set_map)
  have "dict_lookup (p # ps) k0 = dict_lookup d' k0"
    by (rule Cons.prems(3))
  then have v: "v0 = v0'"
    by (simp add: p d' key_eq_refl)
  have "dict_lookup ps k = dict_lookup ps' k" for k
  proof (cases "key_eq k0 k")
    case True
    have "\<forall>k' \<in> fst ` set ps. \<not> key_eq k0 k'" using Cons.prems(2) by (simp add: p)
    then have "\<forall>k' \<in> fst ` set ps. \<not> key_eq k' k"
      using True key_eq_trans key_eq_sym by blast
    then have "dict_lookup ps k = None" "dict_lookup ps' k = None"
      unfolding dict_lookup_None_iff keys by blast+
    then show ?thesis by simp
  next
    case False
    then show ?thesis using Cons.prems(3)[of k] by (simp add: p d')
  qed
  moreover have "dict_distinct ps" using Cons.prems(2) by simp
  ultimately have "ps = ps'" using Cons.IH d'(2) by blast
  with v show ?case by (simp add: p d')
qed


section \<open>The loop of \<^verbatim>\<open>process_results\<close> on a dict\<close>

lemma loop_body_DictE:
  assumes "loop_body item (ids, Dict d) = Inr st'"
  obtains dd k r where "item = JObject dd" "map_of dd ''id'' = Some k" "hashable k"
    "search_item_info dd = Inr r" "st' = (ids @ [k], Dict (dict_set d k r))"
proof (cases item)
  case (JObject dd)
  show ?thesis
  proof (cases "map_of dd ''id''")
    case None
    with assms JObject show ?thesis by (simp add: loop_body_def)
  next
    case (Some k)
    show ?thesis
    proof (cases "search_item_info dd")
      case (Inl e)
      with assms JObject Some show ?thesis by (simp add: loop_body_def)
    next
      case (Inr r)
      with assms JObject Some have "hashable k" "st' = (ids @ [k], Dict (dict_set d k r))"
        by (auto simp: loop_body_def split: if_splits)
      with that JObject Some Inr show ?thesis by blast
    qed
  qed
qed (use assms in \<open>simp_all add: loop_body_def\<close>)

lemma loop_body_DictI:
  "map_of dd ''id'' = Some k \<Longrightarrow> hashable k \<Longrightarrow> search_item_info dd = Inr r \<Longrightarrow>
     loop_body (JObject dd) (ids, Dict d) = Inr (ids @ [k], Dict (dict_set d k r))"
  by (simp add: loop_body_def)

lemma loop_body_mergeable:
  "(\<exists>st'. loop_body item (ids, Dict d) = Inr st') \<longleftrightarrow> mergeable item"
proof
  assume "\<exists>st'. loop_body item (ids, Dict d) = Inr st'"
  then obtain st' where "loop_body item (ids, Dict d) = Inr st'" ..
  then show "mergeable item"
    by (rule loop_body_DictE) (simp add: mergeable_def)
next
  assume "mergeable item"
  then obtain dd k r where "item = JObject dd" "map_of dd ''id'' = Some k" "hashable k"
    "search_item_info dd = Inr r"
    by (auto simp: mergeable_def split: json.splits option.splits sum.splits)
  then show "\<exists>st'. loop_body item (ids, Dict d) = Inr st'"
    using loop_body_DictI by blast
qed

lemma loop_append:
  "loop (xs @ ys) st = (case loop xs st of Inl e \<Rightarrow> Inl e | Inr st' \<Rightarrow> loop ys st')"
  by (induction xs arbitrary: st) (auto split: sum.splits)

lemma loop_ConsE:
  assumes "loop (item # rs) st = Inr fin"
  obtains st' where "loop_body item st = Inr st'" "loop rs st' = Inr fin"
  using assms by (cases "loop_body item st") auto

lemma loop_Dict_result:
  "loop rs (ids0, Dict d0) = Inr (ids, m) \<Longrightarrow> \<exists>d. m = Dict d"
proof (induction rs arbitrary: ids0 d0)
  case Nil then show ?case by auto
next
  case (Cons item rs)
  from Cons.prems obtain st' where b: "loop_body item (ids0, Dict d0) = Inr st'"
    and l: "loop rs st' = Inr (ids, m)" by (rule loop_ConsE)
  from b obtain ids1 d1 where "st' = (ids1, Dict d1)" by (rule loop_body_DictE)
  with l Cons.IH show ?case by blast
qed

lemma loop_success_iff:
  "(\<exists>fin. loop rs (ids0, Dict d0) = Inr fin) \<longleftrightarrow> list_all mergeable rs"
proof (induction rs arbitrary: ids0 d0)
  case Nil show ?case by simp
next
  case (Cons item rs)
  show ?case
  proof (cases "loop_body item (ids0, Dict d0)")
    case (Inl e)
    then have "\<not> mergeable item" using loop_body_mergeable[of item ids0 d0] by simp
    with Inl show ?thesis by simp
  next
    case (Inr st')
    then have m: "mergeable item" using loop_body_mergeable[of item ids0 d0] by blast
    from Inr obtain ids1 d1 where "st' = (ids1, Dict d1)" by (rule loop_body_DictE)
    with Inr m Cons.IH[of ids1 d1] show ?thesis by simp
  qed
qed

lemma loop_frame:
  "loop rs (ids0, Dict d0) = Inr (ids, Dict d) \<Longrightarrow> \<forall>item \<in> set rs. \<not> id_matches k item \<Longrightarrow>
     dict_lookup d k = dict_lookup d0 k"
proof (induction rs arbitrary: ids0 d0)
  case Nil then show ?case by simp
next
  case (Cons item rs)
  from Cons.prems(1) obtain st' where b: "loop_body item (ids0, Dict d0) = Inr st'"
    and l: "loop rs st' = Inr (ids, Dict d)" by (rule loop_ConsE)
  from b obtain dd k' r where item: "item = JObject dd" "map_of dd ''id'' = Some k'"
    and st': "st' = (ids0 @ [k'], Dict (dict_set d0 k' r))" by (rule loop_body_DictE)
  have "\<not> key_eq k' k" using Cons.prems(2) item by (simp add: id_matches_def)
  then have "dict_lookup (dict_set d0 k' r) k = dict_lookup d0 k"
    by (simp add: dict_lookup_dict_set)
  moreover have "dict_lookup d k = dict_lookup (dict_set d0 k' r) k"
    using Cons.IH[of "ids0 @ [k']" "dict_set d0 k' r"] l st' Cons.prems(2) by simp
  ultimately show ?case by simp
qed

lemma loop_last:
  assumes "loop (pre @ JObject dd # post) (ids0, Dict d0) = Inr (ids, Dict d)"
    and "id_matches k (JObject dd)" and "\<forall>item \<in> set post. \<not> id_matches k item"
  shows "\<exists>r. search_item_info dd = Inr r \<and> dict_lookup d k = Some r"
proof -
  from assms(1) obtain st1 where pre: "loop pre (ids0, Dict d0) = Inr st1"
    and rest: "loop (JObject dd # post) st1 = Inr (ids, Dict d)"
    by (auto simp: loop_append split: sum.splits)
  obtain ids1 d1 where st1: "st1 = (ids1, Dict d1)"
    using loop_Dict_result[of pre ids0 d0 "fst st1" "snd st1"] pre by (cases st1) auto
  from rest obtain st2 where b: "loop_body (JObject dd) (ids1, Dict d1) = Inr st2"
    and l: "loop post st2 = Inr (ids, Dict d)" unfolding st1 by (rule loop_ConsE)
  from b obtain k' r where k': "map_of dd ''id'' = Some k'" and r: "search_item_info dd = Inr r"
    and st2: "st2 = (ids1 @ [k'], Dict (dict_set d1 k' r))" by (rule loop_body_DictE) auto
  have "key_eq k' k" using assms(2) k' by (simp add: id_matches_def)
  then have "dict_lookup (dict_set d1 k' r) k = Some r" by (simp add: dict_lookup_dict_set)
  moreover have "dict_lookup d k = dict_lookup (dict_set d1 k' r) k"
    using loop_frame l st2 assms(3) by blast
  ultimately show ?thesis using r by simp
qed

lemma loop_ids_same:
  "loop rs (ids0, Dict d0) = Inr (ids, m) \<Longrightarrow> loop rs (ids0, Dict d0') = Inr (ids', m') \<Longrightarrow> ids' = ids"
proof (induction rs arbitrary: ids0 d0 d0')
  case Nil then show ?case by auto
next
  case (Cons item rs)
  from Cons.prems(1) obtain st1 where b1: "loop_body item (ids0, Dict d0) = Inr st1"
    and l1: "loop rs st1 = Inr (ids, m)" by (rule loop_ConsE)
  from Cons.prems(2) obtain st2 where b2: "loop_body item (ids0, Dict d0') = Inr st2"
    and l2: "loop rs st2 = Inr (ids', m')" by (rule loop_ConsE)
  from b1 obtain dd k r where 1: "item = JObject dd" "map_of dd ''id'' = Some k"
    "st1 = (ids0 @ [k], Dict (dict_set d0 k r))" by (rule loop_body_DictE)
  from b2 obtain dd' k' r' where 2: "item = JObject dd'" "map_of dd' ''id'' = Some k'"
    "st2 = (ids0 @ [k'], Dict (dict_set d0' k' r'))" by (rule loop_body_DictE)
  from 1 2 have "k' = k" by simp
  with 1 2 l1 l2 Cons.IH show ?case by blast
qed


lemma loop_lookup_mono:
  "loop rs (ids0, Dict d0) = Inr (ids, Dict d) \<Longrightarrow> dict_lookup d0 k \<noteq> None \<Longrightarrow> dict_lookup d k \<noteq> None"
proof (induction rs arbitrary: ids0 d0)
  case Nil then show ?case by auto
next
  case (Cons item rs)
  from Cons.prems(1) obtain st1 where b1: "loop_body item (ids0, Dict d0) = Inr st1"
    and l1: "loop rs st1 = Inr (ids, Dict d)" by (rule loop_ConsE)
  from b1 obtain k' r where st1: "st1 = (ids0 @ [k'], Dict (dict_set d0 k' r))"
    by (rule loop_body_DictE)
  have "dict_lookup (dict_set d0 k' r) k \<noteq> None"
    using Cons.prems(2) by (simp add: dict_lookup_dict_set)
  with Cons.IH l1 st1 show ?case by blast
qed

lemma loop_ids_present:
  "loop rs (ids0, Dict d0) = Inr (ids, Dict d) \<Longrightarrow> item \<in> set rs \<Longrightarrow>
     subscript item ''id'' = Inr k \<Longrightarrow> dict_lookup d k \<noteq> None"
proof (induction rs arbitrary: ids0 d0)
  case Nil then show ?case by simp
next
  case (Cons x rs)
  from Cons.prems(1) obtain st1 where b1: "loop_body x (ids0, Dict d0) = Inr st1"
    and l1: "loop rs st1 = Inr (ids, Dict d)" by (rule loop_ConsE)
  from b1 obtain dd k' r where x: "x = JObject dd" "map_of dd ''id'' = Some k'"
    and st1: "st1 = (ids0 @ [k'], Dict (dict_set d0 k' r))"
    by (rule loop_body_DictE)
  show ?case
  proof (cases "item = x")
    case True
    with x Cons.prems(3) have "k' = k" by simp
    then have "dict_lookup (dict_set d0 k' r) k \<noteq> None"
      by (simp add: dict_lookup_dict_set key_eq_refl)
    with l1 st1 show ?thesis using loop_lookup_mono by blast
  next
    case False
    with Cons.prems(2) have "item \<in> set rs" by simp
    with Cons.IH l1 st1 Cons.prems(3) show ?thesis by blast
  qed
qed

lemma loop_keys_same:
  "loop rs (ids0, Dict d0) = Inr (ids, Dict d) \<Longrightarrow>
   (\<And>item k. item \<in> set rs \<Longrightarrow> subscript item ''id'' = Inr k \<Longrightarrow> dict_lookup d0 k \<noteq> None) \<Longrightarrow>
   map fst d = map fst d0"
proof (induction rs arbitrary: ids0 d0)
  case Nil then show ?case by simp
next
  case (Cons x rs)
  from Cons.prems(1) obtain st1 where b1: "loop_body x (ids0, Dict d0) = Inr st1"
    and l1: "loop rs st1 = Inr (ids, Dict d)" by (rule loop_ConsE)
  from b1 obtain dd k' r where x: "x = JObject dd" "map_of dd ''id'' = Some k'"
    and st1: "st1 = (ids0 @ [k'], Dict (dict_set d0 k' r))"
    by (rule loop_body_DictE)
  have "dict_lookup d0 k' \<noteq> None" using Cons.prems(2)[of x k'] x by simp
  then have "\<exists>k0 \<in> fst ` set d0. key_eq k0 k'" by (simp add: dict_lookup_None_iff)
  then have keys: "map fst (dict_set d0 k' r) = map fst d0" by (simp add: keys_dict_set)
  have "dict_lookup (dict_set d0 k' r) k \<noteq> None" if "item \<in> set rs" "subscript item ''id'' = Inr k" for item k
    using Cons.prems(2)[of item k] that by (simp add: dict_lookup_dict_set)
  then have "map fst d = map fst (dict_set d0 k' r)"
    using Cons.IH[of "ids0 @ [k']" "dict_set d0 k' r"] l1 st1 by blast
  with keys show ?case by simp
qed

lemma loop_distinct:
  "loop rs (ids0, Dict d0) = Inr (ids, Dict d) \<Longrightarrow> dict_distinct d0 \<Longrightarrow> dict_distinct d"
proof (induction rs arbitrary: ids0 d0)
  case Nil then show ?case by simp
next
  case (Cons x rs)
  from Cons.prems(1) obtain st1 where b1: "loop_body x (ids0, Dict d0) = Inr st1"
    and l1: "loop rs st1 = Inr (ids, Dict d)" by (rule loop_ConsE)
  from b1 obtain k' r where st1: "st1 = (ids0 @ [k'], Dict (dict_set d0 k' r))"
    by (rule loop_body_DictE)
  with Cons.IH l1 dict_distinct_dict_set[OF Cons.prems(2)] show ?case by blast
qed

lemma last_match:
  assumes "\<exists>item \<in> set rs. id_matches k item"
  obtains pre item post where "rs = pre @ item # post" "id_matches k item"
    "\<forall>x \<in> set post. \<not> id_matches k x"
  using assms split_list_last_prop[of rs "id_matches k"] by blast

lemma id_matches_JObject:
  "loop rs (ids0, Dict d0) = Inr fin \<Longrightarrow> item \<in> set rs \<Longrightarrow> \<exists>dd. item = JObject dd"
  using loop_success_iff[of rs ids0 d0]
  by (auto simp: list_all_iff mergeable_def split: json.splits)

lemma loop_fixpoint:
  assumes run: "loop rs (ids0, Dict d0) = Inr (ids, Dict d)" and dist: "dict_distinct d0"
  shows "loop rs (ids0, Dict d) = Inr (ids, Dict d)"
proof -
  have "list_all mergeable rs" using run loop_success_iff by blast
  then obtain fin where fin: "loop rs (ids0, Dict d) = Inr fin" using loop_success_iff by blast
  obtain ids' d' where fin': "fin = (ids', Dict d')"
    using loop_Dict_result[of rs ids0 d "fst fin" "snd fin"] fin by (cases fin) auto
  have ids: "ids' = ids" using loop_ids_same run fin fin' by blast
  have keys: "map fst d' = map fst d"
    using loop_keys_same[of rs ids0 d ids' d'] fin fin' loop_ids_present[OF run] by blast
  have dd: "dict_distinct d'" using loop_distinct fin fin' loop_distinct[OF run dist] by blast
  have "dict_lookup d' k = dict_lookup d k" for k
  proof (cases "\<exists>item \<in> set rs. id_matches k item")
    case False
    then show ?thesis using loop_frame[of rs ids0 d ids' d' k] fin fin' by blast
  next
    case True
    then obtain pre item post where s: "rs = pre @ item # post" "id_matches k item"
      "\<forall>x \<in> set post. \<not> id_matches k x" by (rule last_match)
    obtain dd where item: "item = JObject dd"
      using id_matches_JObject[OF run, of item] s(1) by auto
    have "\<exists>r. search_item_info dd = Inr r \<and> dict_lookup d k = Some r"
      using loop_last[of pre dd post ids0 d0 ids d k] run s item by simp
    moreover have "\<exists>r. search_item_info dd = Inr r \<and> dict_lookup d' k = Some r"
      using loop_last[of pre dd post ids0 d ids' d' k] fin fin' s item by simp
    ultimately show ?thesis by auto
  qed
  then have "d' = d" using dict_eqI[of d' d] keys dd by blast
  with fin fin' ids show ?thesis by simp
qed


section \<open>Dicts with string keys and what is written of them\<close>

lemma update_fresh: "k \<notin> fst ` set acc \<Longrightarrow> AList.update k v acc = acc @ [(k, v)]"
  by (induction acc) auto

lemma foldl_update_fresh:
  "distinct (map fst acc @ map (\<lambda>kv. f (fst kv)) d) \<Longrightarrow>
     foldl (\<lambda>acc kv. AList.update (f (fst kv)) (snd kv) acc) acc d
       = acc @ map (\<lambda>kv. (f (fst kv), snd kv)) d"
proof (induction d arbitrary: acc)
  case Nil show ?case by simp
next
  case (Cons p ps)
  have fresh: "f (fst p) \<notin> fst ` set acc" using Cons.prems by auto
  have "distinct (map fst (acc @ [(f (fst p), snd p)]) @ map (\<lambda>kv. f (fst kv)) ps)"
    using Cons.prems by auto
  from Cons.IH[OF this] show ?case by (simp add: update_fresh[OF fresh])
qed

lemma is_string_iff: "is_string k \<longleftrightarrow> (\<exists>s. k = JString s)"
  by (cases k) simp_all

lemma string_dict_written_keys:
  "\<forall>k \<in> fst ` set d. is_string k \<Longrightarrow> dict_distinct d \<Longrightarrow>
     distinct (map (\<lambda>kv. key_str fr (fst kv)) d)"
proof (induction d)
  case Nil show ?case by simp
next
  case (Cons p ps)
  obtain s v where p: "p = (JString s, v)" using Cons.prems(1) by (cases p) (auto simp: is_string_iff)
  have "s \<noteq> key_str fr (fst q)" if "q \<in> set ps" for q
  proof -
    have "is_string (fst q)" using Cons.prems(1) that by simp
    then obtain s' where q: "fst q = JString s'" unfolding is_string_iff by blast
    have "\<not> key_eq (JString s) (fst q)" using Cons.prems(2) that by (simp add: p)
    then show ?thesis by (simp add: q key_eq_JString)
  qed
  then have "s \<notin> set (map (\<lambda>kv. key_str fr (fst kv)) ps)" by auto
  with Cons show ?case by (simp add: p)
qed

lemma string_dict_dumped:
  assumes "\<forall>k \<in> fst ` set d. is_string k" "dict_distinct d"
  shows "dumped fr (Dict d) = JObject (map (\<lambda>kv. (key_str fr (fst kv), snd kv)) d)"
  using foldl_update_fresh[of "[]" "key_str fr" d] string_dict_written_keys[OF assms]
  by (simp add: dumped_def)

lemma string_dict_reread:
  "\<forall>k \<in> fst ` set d. is_string k \<Longrightarrow>
     map (\<lambda>kv. (JString (fst kv), snd kv)) (map (\<lambda>kv. (key_str fr (fst kv), snd kv)) d) = d"
proof (induction d)
  case Nil show ?case by simp
next
  case (Cons p ps)
  have "is_string (fst p)" using Cons.prems by simp
  then obtain s where "fst p = JString s" unfolding is_string_iff by blast
  then have "(JString (key_str fr (fst p)), snd p) = p" by (cases p) simp
  with Cons show ?case by simp
qed

lemma string_dict_roundtrip:
  assumes "\<forall>k \<in> fst ` set d. is_string k" "dict_distinct d"
  shows "of_json (dumped fr (Dict d)) = Dict d"
proof -
  have "of_json (JObject kvs) = Dict (map (\<lambda>kv. (JString (fst kv), snd kv)) kvs)" for kvs
    by (simp add: of_json_def)
  then show ?thesis
    by (simp only: string_dict_dumped[OF assms] string_dict_reread[OF assms(1)])
qed

lemma string_dict_map_of:
  "\<forall>k \<in> fst ` set d. is_string k \<Longrightarrow>
     map_of (map (\<lambda>kv. (key_str fr (fst kv), snd kv)) d) a = dict_lookup d (JString a)"
  by (induction d) (auto simp: is_string_iff key_eq_JString')

lemma of_json_string_keys: "of_json (JObject kvs) = Dict d \<Longrightarrow> \<forall>k \<in> fst ` set d. is_string k"
  by (auto simp: of_json_def)

lemma of_json_distinct:
  "of_json (JObject kvs) = Dict d \<Longrightarrow> distinct (map fst kvs) \<Longrightarrow> dict_distinct d"
proof (induction kvs arbitrary: d)
  case Nil then show ?case by (auto simp: of_json_def)
next
  case (Cons p ps)
  have "dict_distinct (map (\<lambda>kv. (JString (fst kv), snd kv)) ps)"
    using Cons.IH[of "map (\<lambda>kv. (JString (fst kv), snd kv)) ps"] Cons.prems(2)
    by (simp add: of_json_def)
  moreover have "\<forall>q \<in> set ps. \<not> key_eq (JString (fst p)) (JString (fst q))"
    using Cons.prems(2) by (auto simp: key_eq_JString)
  ultimately show ?case using Cons.prems(1) by (auto simp: of_json_def)
qed

lemma of_json_lookup:
  "of_json (JObject kvs) = Dict d \<Longrightarrow> dict_lookup d (JString a) = map_of kvs a"
proof (induction kvs arbitrary: d)
  case Nil then show ?case by (auto simp: of_json_def)
next
  case (Cons p ps)
  have "dict_lookup (map (\<lambda>kv. (JString (fst kv), snd kv)) ps) (JString a) = map_of ps a"
    using Cons.IH by (simp add: of_json_def)
  then show ?case using Cons.prems by (cases p) (auto simp: of_json_def key_eq_JString)
qed

lemma load_Dict:
  "load f = Dict d \<Longrightarrow> (d = [] \<and> (f = Absent \<or> f = Invalid)) \<or> (\<exists>kvs. f = Parsed (JObject kvs))"
  by (cases f) (auto simp: of_json_def split: json.splits)

lemma load_NonDict: "load f = NonDict v \<Longrightarrow> f = Parsed v \<and> of_json v = NonDict v"
  by (cases f) (auto simp: of_json_def split: json.splits)

lemma loop_string_keys:
  "loop rs (ids0, Dict d0) = Inr (ids, Dict d) \<Longrightarrow> string_ids rs \<Longrightarrow>
     \<forall>k \<in> fst ` set d0. is_string k \<Longrightarrow> \<forall>k \<in> fst ` set d. is_string k"
proof (induction rs arbitrary: ids0 d0)
  case Nil then show ?case by simp
next
  case (Cons x rs)
  from Cons.prems(1) obtain st1 where b1: "loop_body x (ids0, Dict d0) = Inr st1"
    and l1: "loop rs st1 = Inr (ids, Dict d)" by (rule loop_ConsE)
  from b1 obtain dd k' r where x: "x = JObject dd" "map_of dd ''id'' = Some k'"
    and st1: "st1 = (ids0 @ [k'], Dict (dict_set d0 k' r))"
    by (rule loop_body_DictE)
  have "is_string k'" using Cons.prems(2) x by (simp add: string_ids_def)
  then have "\<forall>k \<in> insert k' (fst ` set d0). is_string k" using Cons.prems(3) by simp
  then have "\<forall>k \<in> fst ` set (dict_set d0 k' r). is_string k"
    using keys_dict_set_subset[of d0 k' r] by blast
  moreover have "string_ids rs" using Cons.prems(2) by (simp add: string_ids_def)
  ultimately show ?case using Cons.IH l1 st1 by blast
qed

lemma loop_NonDict_string_ids:
  assumes "loop rs (ids0, NonDict v) = Inr fin" "string_ids rs"
  shows "rs = []"
proof (cases rs)
  case Nil then show ?thesis .
next
  case (Cons x xs)
  with assms(1) have "loop (x # xs) (ids0, NonDict v) = Inr fin" by simp
  then obtain st1 where b: "loop_body x (ids0, NonDict v) = Inr st1"
    by (rule loop_ConsE)
  then obtain k info where k: "subscript x ''id'' = Inr k" and s: "setitem (NonDict v) k info = Inr (snd st1)"
    by (auto simp: loop_body_def split: sum.splits json.splits)
  have "is_string k" using assms(2) Cons k by (simp add: string_ids_def)
  then obtain s' where "k = JString s'" by (auto simp: is_string_iff)
  then have "setitem (NonDict v) k info = Inl TypeError" by (cases v) simp_all
  with s show ?thesis by simp
qed

section \<open>What \<^verbatim>\<open>process_results\<close> and \<^verbatim>\<open>get_item_details\<close> do to the bucket files\<close>

lemma process_results_Inl:
  "loop rs ([], load (fs (query_file q))) = Inl e \<Longrightarrow> process_results fr q rs fs = (Inl e, fs)"
  by (simp add: process_results_def)

lemma process_results_Inr:
  "loop rs ([], load (fs (query_file q))) = Inr (ids, m) \<Longrightarrow>
     process_results fr q rs fs = (Inr (ids, m), fs(query_file q := Parsed (dumped fr m)))"
  by (simp add: process_results_def)

lemma process_results_InrD:
  assumes "process_results fr q rs fs = (Inr (ids, m), fs')"
  shows "loop rs ([], load (fs (query_file q))) = Inr (ids, m) \<and>
         fs' = fs(query_file q := Parsed (dumped fr m))"
proof (cases "loop rs ([], load (fs (query_file q)))")
  case (Inl e)
  with assms show ?thesis by (simp add: process_results_Inl)
next
  case (Inr st)
  with assms show ?thesis by (cases st) (simp add: process_results_Inr)
qed

lemma loop_body_no_id: "map_of dd ''id'' = None \<Longrightarrow> loop_body (JObject dd) st = Inl KeyError"
  by (simp add: loop_body_def)

text \<open>
  Claim C9. If a record of the batch is a dict without the key \<^verbatim>\<open>id\<close>, \<^verbatim>\<open>process_results\<close>
  raises and leaves every file as it was, so nothing of the batch is written, not even the
  records before the faulty one. The exception is the \<^verbatim>\<open>KeyError\<close> of \<^verbatim>\<open>item['id']\<close> whenever the
  records before the faulty one are processed without an exception of their own (an earlier
  record that raises is reported first).
\<close>

theorem missing_id_raises_before_write:
  assumes "JObject dd \<in> set results" and "map_of dd ''id'' = None"
  shows "(\<exists>e. process_results float_repr query results fs = (Inl e, fs)) \<and>
         (\<forall>pre post. results = pre @ JObject dd # post \<and>
                      (\<exists>r. fst (process_results float_repr query pre fs) = Inr r) \<longrightarrow>
              process_results float_repr query results fs = (Inl KeyError, fs))"
proof (intro conjI allI impI)
  from assms(1) obtain pre post where s: "results = pre @ JObject dd # post"
    by (auto dest: split_list)
  have "\<exists>e. loop results ([], load (fs (query_file query))) = Inl e"
    unfolding s loop_append by (simp add: loop_body_no_id[OF assms(2)] split: sum.splits)
  then show "\<exists>e. process_results float_repr query results fs = (Inl e, fs)"
    using process_results_Inl by blast
next
  fix pre post
  assume a: "results = pre @ JObject dd # post \<and>
             (\<exists>r. fst (process_results float_repr query pre fs) = Inr r)"
  then obtain st where "loop pre ([], load (fs (query_file query))) = Inr st"
    by (cases "loop pre ([], load (fs (query_file query)))") (auto simp: process_results_Inl)
  then have "loop results ([], load (fs (query_file query))) = Inl KeyError"
    using a by (simp add: loop_append loop_body_no_id[OF assms(2)])
  then show "process_results float_repr query results fs = (Inl KeyError, fs)"
    by (rule process_results_Inl)
qed

text \<open>The dict displays of two small records, for the worked examples below.\<close>

lemma info_c:
  "search_item_info [(''id'', JString ''c''), (''image_url'', JArray [])] =
     Inr (JObject
       [(''title'', JString ''''), (''contributor[s]'', JArray []), (''description'', JString ''''),
        (''link'', JString ''c''), (''thumbnail'', JArray []), (''digitized'', JBool False),
        (''genre'', JNull), (''subjects'', JNull)])"
  by (simp add: search_item_info_def contributors_def thumbnail_def get_def py_or_def)

lemma info_a:
  "search_item_info [(''id'', JString ''a''), (''title'', JString ''New''), (''image_url'', JArray [JString ''u''])] =
     Inr (JObject
       [(''title'', JString ''New''), (''contributor[s]'', JArray []), (''description'', JString ''''),
        (''link'', JString ''a''), (''thumbnail'', JString ''u''), (''digitized'', JBool False),
        (''genre'', JNull), (''subjects'', JNull)])"
  by (simp add: search_item_info_def contributors_def thumbnail_def get_def py_or_def)

theorem missing_id_raises_before_write_witness:
  "JObject [(''title'', JString ''T'')]
     \<in> set [JObject [(''id'', JString ''a''), (''image_url'', JArray [])], JObject [(''title'', JString ''T'')]] \<and>
   map_of [(''title'', JString ''T'')] ''id'' = None \<and>
   fst (process_results (\<lambda>r. []) ''q'' [JObject [(''id'', JString ''a''), (''image_url'', JArray [])]] (\<lambda>p. Absent))
     = Inr ([JString ''a''],
            Dict [(JString ''a'', JObject
              [(''title'', JString ''''), (''contributor[s]'', JArray []), (''description'', JString ''''),
               (''link'', JString ''a''), (''thumbnail'', JArray []), (''digitized'', JBool False),
               (''genre'', JNull), (''subjects'', JNull)])]) \<and>
   process_results (\<lambda>r. []) ''q''
     [JObject [(''id'', JString ''a''), (''image_url'', JArray [])], JObject [(''title'', JString ''T'')]]
     (\<lambda>p. Absent) = (Inl KeyError, \<lambda>p. Absent)"
  using missing_id_raises_before_write [of "[(''title'', JString ''T'')]"
      "[JObject [(''id'', JString ''a''), (''image_url'', JArray [])], JObject [(''title'', JString ''T'')]]"
      "\<lambda>r. []" "''q''" "\<lambda>p. Absent"]
  by (simp add: process_results_def loop_body_def search_item_info_def contributors_def thumbnail_def
        get_def py_or_def)



lemma load_string_dict:
  assumes "load f = Dict d0"
  shows "\<forall>k \<in> fst ` set d0. is_string k"
proof -
  from load_Dict[OF assms] show ?thesis
  proof
    assume "d0 = [] \<and> (f = Absent \<or> f = Invalid)"
    then show ?thesis by simp
  next
    assume "\<exists>kvs. f = Parsed (JObject kvs)"
    then obtain kvs where "f = Parsed (JObject kvs)" ..
    with assms have "of_json (JObject kvs) = Dict d0" by simp
    then show ?thesis by (rule of_json_string_keys)
  qed
qed

lemma load_dict_distinct:
  assumes "load f = Dict d0" and "\<forall>kvs. f = Parsed (JObject kvs) \<longrightarrow> distinct (map fst kvs)"
  shows "dict_distinct d0"
proof -
  from load_Dict[OF assms(1)] show ?thesis
  proof
    assume "d0 = [] \<and> (f = Absent \<or> f = Invalid)"
    then show ?thesis by simp
  next
    assume "\<exists>kvs. f = Parsed (JObject kvs)"
    then obtain kvs where f: "f = Parsed (JObject kvs)" ..
    with assms have "of_json (JObject kvs) = Dict d0" "distinct (map fst kvs)" by simp_all
    then show ?thesis by (rule of_json_distinct)
  qed
qed

lemma reload_after_loop:
  assumes run: "loop rs ([], load f) = Inr (ids, m)" and ids: "string_ids rs"
    and f: "\<forall>kvs. f = Parsed (JObject kvs) \<longrightarrow> distinct (map fst kvs)"
  shows "of_json (dumped fr m) = m \<and> loop rs ([], m) = Inr (ids, m)"
proof (cases "load f")
  case (NonDict v)
  then have "rs = []" using run ids loop_NonDict_string_ids by metis
  then have "m = NonDict v" "ids = []" using run NonDict by simp_all
  moreover have "of_json v = NonDict v" using load_NonDict[OF NonDict] by simp
  ultimately show ?thesis using \<open>rs = []\<close> by (simp add: dumped_def)
next
  case (Dict d0)
  obtain d where m: "m = Dict d" using loop_Dict_result run Dict by metis
  have run': "loop rs ([], Dict d0) = Inr (ids, Dict d)" using run Dict m by simp
  have s0: "\<forall>k \<in> fst ` set d0. is_string k" using Dict by (rule load_string_dict)
  have d0: "dict_distinct d0" using Dict f by (rule load_dict_distinct)
  have s: "\<forall>k \<in> fst ` set d. is_string k" using loop_string_keys[OF run' ids s0] .
  have dd: "dict_distinct d" using loop_distinct[OF run' d0] .
  have "of_json (dumped fr (Dict d)) = Dict d" using s dd by (rule string_dict_roundtrip)
  moreover have "loop rs ([], Dict d) = Inr (ids, Dict d)" using run' d0 by (rule loop_fixpoint)
  ultimately show ?thesis by (simp add: m)
qed

text \<open>
  Claim C4, as the code has it. When every \<^verbatim>\<open>id\<close> of the batch is a string (and the bucket
  file, if it parses to an object, has each key once, as every parsed object has), running
  \<^verbatim>\<open>process_results\<close> a second time with the same query and batch gives the same outcome and
  leaves the files exactly as the first run left them.
\<close>

theorem process_results_idempotent_on_string_ids:
  assumes "string_ids results"
    and "\<forall>kvs. fs (query_file query) = Parsed (JObject kvs) \<longrightarrow> distinct (map fst kvs)"
  shows "process_results float_repr query results (snd (process_results float_repr query results fs))
           = process_results float_repr query results fs"
proof (cases "loop results ([], load (fs (query_file query)))")
  case (Inl e)
  then show ?thesis by (simp add: process_results_Inl)
next
  case (Inr st)
  obtain ids m where st: "st = (ids, m)" by (cases st)
  let ?fs1 = "fs(query_file query := Parsed (dumped float_repr m))"
  have r1: "process_results float_repr query results fs = (Inr (ids, m), ?fs1)"
    using Inr st by (simp add: process_results_Inr)
  have "of_json (dumped float_repr m) = m \<and> loop results ([], m) = Inr (ids, m)"
    using reload_after_loop[of results "fs (query_file query)" ids m float_repr] Inr st assms by simp
  then have "loop results ([], load (?fs1 (query_file query))) = Inr (ids, m)" by simp
  then have "process_results float_repr query results ?fs1
      = (Inr (ids, m), ?fs1(query_file query := Parsed (dumped float_repr m)))"
    by (rule process_results_Inr)
  then show ?thesis by (simp add: r1)
qed

theorem process_results_idempotent_on_string_ids_witness:
  "string_ids [JObject [(''id'', JString ''c''), (''image_url'', JArray [])]] \<and>
   distinct (map fst [(''a'', JString ''old'')]) \<and>
   process_results (\<lambda>r. []) ''q'' [JObject [(''id'', JString ''c''), (''image_url'', JArray [])]]
     (snd (process_results (\<lambda>r. []) ''q'' [JObject [(''id'', JString ''c''), (''image_url'', JArray [])]]
            (\<lambda>p. Parsed (JObject [(''a'', JString ''old'')]))))
   = (Inr ([JString ''c''],
           Dict [(JString ''a'', JString ''old''),
                 (JString ''c'', JObject
                    [(''title'', JString ''''), (''contributor[s]'', JArray []), (''description'', JString ''''),
                     (''link'', JString ''c''), (''thumbnail'', JArray []), (''digitized'', JBool False),
                     (''genre'', JNull), (''subjects'', JNull)])]),
      (\<lambda>p. Parsed (JObject [(''a'', JString ''old'')]))
        (query_file ''q'' := Parsed (JObject
           [(''a'', JString ''old''),
            (''c'', JObject
                    [(''title'', JString ''''), (''contributor[s]'', JArray []), (''description'', JString ''''),
                     (''link'', JString ''c''), (''thumbnail'', JArray []), (''digitized'', JBool False),
                     (''genre'', JNull), (''subjects'', JNull)])])))"
proof -
  let ?rs = "[JObject [(''id'', JString ''c''), (''image_url'', JArray [])]]"
  let ?fs = "\<lambda>p::string. Parsed (JObject [(''a'', JString ''old'')])"
  have h1: "string_ids ?rs" by (simp add: string_ids_def)
  have h2: "\<forall>kvs. ?fs (query_file ''q'') = Parsed (JObject kvs) \<longrightarrow> distinct (map fst kvs)" by simp
  have run: "process_results (\<lambda>r. []) ''q'' ?rs ?fs
      = (Inr ([JString ''c''],
           Dict [(JString ''a'', JString ''old''),
                 (JString ''c'', JObject
                    [(''title'', JString ''''), (''contributor[s]'', JArray []), (''description'', JString ''''),
                     (''link'', JString ''c''), (''thumbnail'', JArray []), (''digitized'', JBool False),
                     (''genre'', JNull), (''subjects'', JNull)])]),
      ?fs(query_file ''q'' := Parsed (JObject
           [(''a'', JString ''old''),
            (''c'', JObject
                    [(''title'', JString ''''), (''contributor[s]'', JArray []), (''description'', JString ''''),
                     (''link'', JString ''c''), (''thumbnail'', JArray []), (''digitized'', JBool False),
                     (''genre'', JNull), (''subjects'', JNull)])])))"
    by (simp add: process_results_def loop_body_def info_c of_json_def key_eq_def dumped_def)
  from process_results_idempotent_on_string_ids [where float_repr = "\<lambda>r. []" and query = "''q''", OF h1 h2] run h1 show ?thesis
    by simp
qed

text \<open>
  Claim C4 as stated, for every batch, fails: \<^verbatim>\<open>json.dump\<close> writes the integer key \<^verbatim>\<open>5\<close> as
  \<^verbatim>\<open>"5"\<close>. On the batch \<^verbatim>\<open>[{"id": 5, "image_url": []}, {"id": "5", "image_url": []}]\<close> and no
  bucket file, one run leaves the record of \<^verbatim>\<open>"5"\<close> under the key \<^verbatim>\<open>"5"\<close>, and a second run
  leaves the record of \<^verbatim>\<open>5\<close> there.
\<close>

theorem process_results_not_idempotent_on_colliding_ids:
  "snd (process_results (\<lambda>r. []) ''q''
          [JObject [(''id'', JInt 5), (''image_url'', JArray [])],
           JObject [(''id'', JString ''5''), (''image_url'', JArray [])]] (\<lambda>p. Absent)) (query_file ''q'')
     = Parsed (JObject [(''5'', JObject
         [(''title'', JString ''''), (''contributor[s]'', JArray []), (''description'', JString ''''),
          (''link'', JString ''5''), (''thumbnail'', JArray []), (''digitized'', JBool False),
          (''genre'', JNull), (''subjects'', JNull)])]) \<and>
   snd (process_results (\<lambda>r. []) ''q''
          [JObject [(''id'', JInt 5), (''image_url'', JArray [])],
           JObject [(''id'', JString ''5''), (''image_url'', JArray [])]]
          (snd (process_results (\<lambda>r. []) ''q''
          [JObject [(''id'', JInt 5), (''image_url'', JArray [])],
           JObject [(''id'', JString ''5''), (''image_url'', JArray [])]] (\<lambda>p. Absent)))) (query_file ''q'')
     = Parsed (JObject [(''5'', JObject
         [(''title'', JString ''''), (''contributor[s]'', JArray []), (''description'', JString ''''),
          (''link'', JInt 5), (''thumbnail'', JArray []), (''digitized'', JBool False),
          (''genre'', JNull), (''subjects'', JNull)])]) \<and>
   snd (process_results (\<lambda>r. []) ''q''
          [JObject [(''id'', JInt 5), (''image_url'', JArray [])],
           JObject [(''id'', JString ''5''), (''image_url'', JArray [])]]
          (snd (process_results (\<lambda>r. []) ''q''
          [JObject [(''id'', JInt 5), (''image_url'', JArray [])],
           JObject [(''id'', JString ''5''), (''image_url'', JArray [])]] (\<lambda>p. Absent)))) (query_file ''q'')
   \<noteq> snd (process_results (\<lambda>r. []) ''q''
          [JObject [(''id'', JInt 5), (''image_url'', JArray [])],
           JObject [(''id'', JString ''5''), (''image_url'', JArray [])]] (\<lambda>p. Absent)) (query_file ''q'')"
proof -
  let ?a = "JObject
         [(''title'', JString ''''), (''contributor[s]'', JArray []), (''description'', JString ''''),
          (''link'', JInt 5), (''thumbnail'', JArray []), (''digitized'', JBool False),
          (''genre'', JNull), (''subjects'', JNull)]"
  let ?b = "JObject
         [(''title'', JString ''''), (''contributor[s]'', JArray []), (''description'', JString ''''),
          (''link'', JString ''5''), (''thumbnail'', JArray []), (''digitized'', JBool False),
          (''genre'', JNull), (''subjects'', JNull)]"
  let ?rs = "[JObject [(''id'', JInt 5), (''image_url'', JArray [])],
           JObject [(''id'', JString ''5''), (''image_url'', JArray [])]]"
  have five: "str_of_int 5 = ''5''" by code_simp
  have a: "search_item_info [(''id'', JInt 5), (''image_url'', JArray [])] = Inr ?a"
    by (simp add: search_item_info_def contributors_def thumbnail_def get_def py_or_def)
  have b: "search_item_info [(''id'', JString ''5''), (''image_url'', JArray [])] = Inr ?b"
    by (simp add: search_item_info_def contributors_def thumbnail_def get_def py_or_def)
  have l1: "loop ?rs ([], Dict []) = Inr ([JInt 5, JString ''5''], Dict [(JInt 5, ?a), (JString ''5'', ?b)])"
    by (simp add: loop_body_def a b key_eq_def)
  have l2: "loop ?rs ([], Dict [(JString ''5'', ?b)])
      = Inr ([JInt 5, JString ''5''], Dict [(JString ''5'', ?b), (JInt 5, ?a)])"
    by (simp add: loop_body_def a b key_eq_def)
  have d1: "dumped (\<lambda>r. []) (Dict [(JInt 5, ?a), (JString ''5'', ?b)]) = JObject [(''5'', ?b)]"
    by (simp add: dumped_def five)
  have d2: "dumped (\<lambda>r. []) (Dict [(JString ''5'', ?b), (JInt 5, ?a)]) = JObject [(''5'', ?a)]"
    by (simp add: dumped_def five)
  have r1: "process_results (\<lambda>r. []) ''q'' ?rs (\<lambda>p. Absent)
      = (Inr ([JInt 5, JString ''5''], Dict [(JInt 5, ?a), (JString ''5'', ?b)]),
         (\<lambda>p. Absent)(query_file ''q'' := Parsed (JObject [(''5'', ?b)])))"
    using process_results_Inr[of ?rs "\<lambda>p. Absent" "''q''"] l1 d1 by simp
  have r2: "process_results (\<lambda>r. []) ''q'' ?rs ((\<lambda>p. Absent)(query_file ''q'' := Parsed (JObject [(''5'', ?b)])))
      = (Inr ([JInt 5, JString ''5''], Dict [(JString ''5'', ?b), (JInt 5, ?a)]),
         (\<lambda>p. Absent)(query_file ''q'' := Parsed (JObject [(''5'', ?a)])))"
    using process_results_Inr[of ?rs "(\<lambda>p. Absent)(query_file ''q'' := Parsed (JObject [(''5'', ?b)]))" "''q''"] l2 d2
    by (simp add: of_json_def)
  show ?thesis by (simp add: r1 r2)
qed

lemma string_dict_persisted:
  assumes "\<forall>k \<in> fst ` set d. is_string k" "dict_distinct d"
  shows "\<exists>kvs'. dumped fr (Dict d) = JObject kvs' \<and> (\<forall>a. map_of kvs' a = dict_lookup d (JString a))"
  using string_dict_dumped[OF assms] string_dict_map_of[OF assms(1)] by simp

text \<open>
  Claim C5. Let the bucket file hold a mapping and let \<^verbatim>\<open>process_results\<close> return. Then the
  returned mapping is a dict; every identifier of the old mapping that is the \<^verbatim>\<open>id\<close> of no
  record in the batch has the entry it had; every \<^verbatim>\<open>id\<close> of the batch has an entry; an
  identifier that appears in the batch has, as its entry, the whole dict display of the last
  batch record with that \<^verbatim>\<open>id\<close>; and when the batch's identifiers are strings the file holds
  the same entries as the returned mapping.
\<close>

theorem merge_keeps_other_entries:
  assumes "fs (query_file query) = Parsed (JObject kvs)"
    and "process_results float_repr query results fs = (Inr (ids, m), fs')"
  shows "\<exists>d. m = Dict d \<and> fs' = fs(query_file query := Parsed (dumped float_repr (Dict d))) \<and>
           (\<forall>a. (\<forall>item \<in> set results. \<not> id_matches (JString a) item) \<longrightarrow>
                dict_lookup d (JString a) = map_of kvs a) \<and>
           (\<forall>item \<in> set results. \<forall>k. subscript item ''id'' = Inr k \<longrightarrow> dict_lookup d k \<noteq> None) \<and>
           (\<forall>k pre dd post.
              results = pre @ JObject dd # post \<and> id_matches k (JObject dd) \<and>
              (\<forall>item \<in> set post. \<not> id_matches k item) \<longrightarrow>
              (\<exists>r. search_item_info dd = Inr r \<and> dict_lookup d k = Some r)) \<and>
           (string_ids results \<and> distinct (map fst kvs) \<longrightarrow>
              (\<exists>kvs'. dumped float_repr (Dict d) = JObject kvs' \<and>
                      (\<forall>a. map_of kvs' a = dict_lookup d (JString a))))"
proof -
  obtain d0 where d0: "of_json (JObject kvs) = Dict d0" by (simp add: of_json_def)
  then have l: "load (fs (query_file query)) = Dict d0" using assms(1) by simp
  from process_results_InrD[OF assms(2)] l
  have run: "loop results ([], Dict d0) = Inr (ids, m)"
    and fs': "fs' = fs(query_file query := Parsed (dumped float_repr m))" by simp_all
  obtain d where m: "m = Dict d" using loop_Dict_result[OF run] by blast
  note run' = run[unfolded m]
  have 1: "\<forall>a. (\<forall>item \<in> set results. \<not> id_matches (JString a) item) \<longrightarrow>
                dict_lookup d (JString a) = map_of kvs a"
    using loop_frame[OF run'] of_json_lookup[OF d0] by simp
  have 2: "\<forall>item \<in> set results. \<forall>k. subscript item ''id'' = Inr k \<longrightarrow> dict_lookup d k \<noteq> None"
    using loop_ids_present[OF run'] by blast
  have 3: "string_ids results \<and> distinct (map fst kvs) \<longrightarrow>
              (\<exists>kvs'. dumped float_repr (Dict d) = JObject kvs' \<and>
                      (\<forall>a. map_of kvs' a = dict_lookup d (JString a)))"
  proof
    assume a: "string_ids results \<and> distinct (map fst kvs)"
    have "\<forall>k \<in> fst ` set d. is_string k"
      using loop_string_keys[OF run'] a of_json_string_keys[OF d0] by blast
    moreover have "dict_distinct d" using loop_distinct[OF run'] of_json_distinct[OF d0] a by blast
    ultimately show "\<exists>kvs'. dumped float_repr (Dict d) = JObject kvs' \<and>
                      (\<forall>a. map_of kvs' a = dict_lookup d (JString a))"
      by (rule string_dict_persisted)
  qed
  have 4: "\<forall>k pre dd post.
              results = pre @ JObject dd # post \<and> id_matches k (JObject dd) \<and>
              (\<forall>item \<in> set post. \<not> id_matches k item) \<longrightarrow>
              (\<exists>r. search_item_info dd = Inr r \<and> dict_lookup d k = Some r)"
    using loop_last run' by blast
  from m fs' 1 2 3 4 show ?thesis by blast
qed

theorem merge_keeps_other_entries_witness:
  "process_results (\<lambda>r. []) ''q'' [JObject [(''id'', JString ''c''), (''image_url'', JArray [])]]
     (\<lambda>p. Parsed (JObject [(''a'', JString ''ra''), (''b'', JString ''rb'')]))
   = (Inr ([JString ''c''],
           Dict [(JString ''a'', JString ''ra''), (JString ''b'', JString ''rb''),
                 (JString ''c'', JObject
                    [(''title'', JString ''''), (''contributor[s]'', JArray []), (''description'', JString ''''),
                     (''link'', JString ''c''), (''thumbnail'', JArray []), (''digitized'', JBool False),
                     (''genre'', JNull), (''subjects'', JNull)])]),
      (\<lambda>p. Parsed (JObject [(''a'', JString ''ra''), (''b'', JString ''rb'')]))
        (query_file ''q'' := Parsed (JObject
           [(''a'', JString ''ra''), (''b'', JString ''rb''),
            (''c'', JObject
                    [(''title'', JString ''''), (''contributor[s]'', JArray []), (''description'', JString ''''),
                     (''link'', JString ''c''), (''thumbnail'', JArray []), (''digitized'', JBool False),
                     (''genre'', JNull), (''subjects'', JNull)])]))) \<and>
   dict_lookup
     [(JString ''a'', JString ''ra''), (JString ''b'', JString ''rb''),
      (JString ''c'', JObject
         [(''title'', JString ''''), (''contributor[s]'', JArray []), (''description'', JString ''''),
          (''link'', JString ''c''), (''thumbnail'', JArray []), (''digitized'', JBool False),
          (''genre'', JNull), (''subjects'', JNull)])] (JString ''a'')
   = map_of [(''a'', JString ''ra''), (''b'', JString ''rb'')] ''a'' \<and>
   dict_lookup
     [(JString ''a'', JString ''ra''), (JString ''b'', JString ''rb''),
      (JString ''c'', JObject
         [(''title'', JString ''''), (''contributor[s]'', JArray []), (''description'', JString ''''),
          (''link'', JString ''c''), (''thumbnail'', JArray []), (''digitized'', JBool False),
          (''genre'', JNull), (''subjects'', JNull)])] (JString ''b'')
   = map_of [(''a'', JString ''ra''), (''b'', JString ''rb'')] ''b''"
proof -
  let ?rs = "[JObject [(''id'', JString ''c''), (''image_url'', JArray [])]]"
  let ?kvs = "[(''a'', JString ''ra''), (''b'', JString ''rb'')]"
  let ?fs = "\<lambda>p::string. Parsed (JObject ?kvs)"
  let ?d = "[(JString ''a'', JString ''ra''), (JString ''b'', JString ''rb''),
      (JString ''c'', JObject
         [(''title'', JString ''''), (''contributor[s]'', JArray []), (''description'', JString ''''),
          (''link'', JString ''c''), (''thumbnail'', JArray []), (''digitized'', JBool False),
          (''genre'', JNull), (''subjects'', JNull)])]"
  have h: "?fs (query_file ''q'') = Parsed (JObject ?kvs)" by simp
  have run: "process_results (\<lambda>r. []) ''q'' ?rs ?fs
   = (Inr ([JString ''c''], Dict ?d),
      ?fs(query_file ''q'' := Parsed (JObject
           [(''a'', JString ''ra''), (''b'', JString ''rb''),
            (''c'', JObject
                    [(''title'', JString ''''), (''contributor[s]'', JArray []), (''description'', JString ''''),
                     (''link'', JString ''c''), (''thumbnail'', JArray []), (''digitized'', JBool False),
                     (''genre'', JNull), (''subjects'', JNull)])])))"
    by (simp add: process_results_def loop_body_def info_c of_json_def key_eq_def dumped_def)
  from merge_keeps_other_entries [OF h run] obtain d where d: "Dict ?d = Dict d"
    and frame: "\<forall>a. (\<forall>item \<in> set ?rs. \<not> id_matches (JString a) item) \<longrightarrow>
                dict_lookup d (JString a) = map_of ?kvs a"
    by blast
  have na: "\<forall>item \<in> set ?rs. \<not> id_matches (JString ''a'') item"
    by (simp add: id_matches_def key_eq_def)
  have nb: "\<forall>item \<in> set ?rs. \<not> id_matches (JString ''b'') item"
    by (simp add: id_matches_def key_eq_def)
  from d have "d = ?d" by simp
  with frame na nb have "dict_lookup ?d (JString ''a'') = map_of ?kvs ''a''"
    "dict_lookup ?d (JString ''b'') = map_of ?kvs ''b''" by blast+
  with run show ?thesis by (simp only: simp_thms)
qed



text \<open>
  Claim C7. Let the bucket file hold a mapping with an entry for the identifier \<open>a\<close>, and let
  the batch contain a record \<open>new\<close> with that \<^verbatim>\<open>id\<close>, the last one with it. When
  \<^verbatim>\<open>process_results\<close> returns, the entry of \<open>a\<close> is the dict display of \<open>new\<close>: each field is
  read from \<open>new\<close> with its default, and nothing of the old entry remains. With string
  identifiers in the batch the file holds the same entry.
\<close>

theorem recurring_id_overwrites_entry:
  assumes "fs (query_file query) = Parsed (JObject kvs)" and "map_of kvs a = Some old"
    and "process_results float_repr query (pre @ JObject new # post) fs = (Inr (ids, m), fs')"
    and "map_of new ''id'' = Some (JString a)"
    and "\<forall>item \<in> set post. \<not> id_matches (JString a) item"
  shows "\<exists>d cs th.
           m = Dict d \<and> contributors new = Inr cs \<and> thumbnail new = Inr th \<and>
           dict_lookup d (JString a) = Some (JObject
             [(''title'', get new ''title'' (JString '''')),
              (''contributor[s]'', cs),
              (''description'', get new ''description'' (JString '''')),
              (''link'', JString a),
              (''thumbnail'', th),
              (''digitized'', get new ''digitized'' (JBool False)),
              (''genre'', get new ''genre'' JNull),
              (''subjects'', get new ''subject'' JNull)]) \<and>
           (string_ids (pre @ JObject new # post) \<and> distinct (map fst kvs) \<longrightarrow>
              (\<exists>kvs'. fs' (query_file query) = Parsed (JObject kvs') \<and>
                      map_of kvs' a = dict_lookup d (JString a)))"
proof -
  let ?rs = "pre @ JObject new # post"
  obtain d0 where d0: "of_json (JObject kvs) = Dict d0" by (simp add: of_json_def)
  then have l: "load (fs (query_file query)) = Dict d0" using assms(1) by simp
  from process_results_InrD[OF assms(3)] l
  have run: "loop ?rs ([], Dict d0) = Inr (ids, m)"
    and fs': "fs' = fs(query_file query := Parsed (dumped float_repr m))" by simp_all
  obtain d where m: "m = Dict d" using loop_Dict_result[OF run] by blast
  note run' = run[unfolded m]
  have "id_matches (JString a) (JObject new)"
    using assms(4) by (simp add: id_matches_def key_eq_refl)
  from loop_last[OF run' this assms(5)]
  obtain r where r: "search_item_info new = Inr r" "dict_lookup d (JString a) = Some r" by blast
  from r(1) obtain cs th where c: "contributors new = Inr cs" and t: "thumbnail new = Inr th"
    by (cases "contributors new"; cases "thumbnail new") (simp_all add: search_item_info_def)
  have link: "get new ''id'' (JString '''') = JString a" using assms(4) by (simp add: get_def)
  have rec: "dict_lookup d (JString a) = Some (JObject
             [(''title'', get new ''title'' (JString '''')),
              (''contributor[s]'', cs),
              (''description'', get new ''description'' (JString '''')),
              (''link'', JString a),
              (''thumbnail'', th),
              (''digitized'', get new ''digitized'' (JBool False)),
              (''genre'', get new ''genre'' JNull),
              (''subjects'', get new ''subject'' JNull)])"
    using r c t link by (simp add: search_item_info_def)
  have p: "string_ids ?rs \<and> distinct (map fst kvs) \<longrightarrow>
              (\<exists>kvs'. fs' (query_file query) = Parsed (JObject kvs') \<and>
                      map_of kvs' a = dict_lookup d (JString a))"
  proof
    assume a: "string_ids ?rs \<and> distinct (map fst kvs)"
    have "\<forall>k \<in> fst ` set d. is_string k"
      using loop_string_keys[OF run'] a of_json_string_keys[OF d0] by blast
    moreover have "dict_distinct d" using loop_distinct[OF run'] of_json_distinct[OF d0] a by blast
    ultimately obtain kvs' where "dumped float_repr (Dict d) = JObject kvs'"
        "\<forall>a. map_of kvs' a = dict_lookup d (JString a)"
      using string_dict_persisted by blast
    then show "\<exists>kvs'. fs' (query_file query) = Parsed (JObject kvs') \<and>
                      map_of kvs' a = dict_lookup d (JString a)"
      by (simp add: fs' m)
  qed
  from m c t rec p show ?thesis by blast
qed

theorem recurring_id_overwrites_entry_witness:
  "map_of [(''a'', JObject [(''title'', JString ''Old''), (''genre'', JString ''g'')])] ''a''
     = Some (JObject [(''title'', JString ''Old''), (''genre'', JString ''g'')]) \<and>
   map_of [(''id'', JString ''a''), (''title'', JString ''New''), (''image_url'', JArray [JString ''u''])] ''id''
     = Some (JString ''a'') \<and>
   process_results (\<lambda>r. []) ''q''
     [JObject [(''id'', JString ''a''), (''title'', JString ''New''), (''image_url'', JArray [JString ''u''])]]
     (\<lambda>p. Parsed (JObject [(''a'', JObject [(''title'', JString ''Old''), (''genre'', JString ''g'')])]))
   = (Inr ([JString ''a''],
           Dict [(JString ''a'', JObject
                    [(''title'', JString ''New''), (''contributor[s]'', JArray []), (''description'', JString ''''),
                     (''link'', JString ''a''), (''thumbnail'', JString ''u''), (''digitized'', JBool False),
                     (''genre'', JNull), (''subjects'', JNull)])]),
      (\<lambda>p. Parsed (JObject [(''a'', JObject [(''title'', JString ''Old''), (''genre'', JString ''g'')])]))
        (query_file ''q'' := Parsed (JObject
           [(''a'', JObject
                    [(''title'', JString ''New''), (''contributor[s]'', JArray []), (''description'', JString ''''),
                     (''link'', JString ''a''), (''thumbnail'', JString ''u''), (''digitized'', JBool False),
                     (''genre'', JNull), (''subjects'', JNull)])]))) \<and>
   dict_lookup [(JString ''a'', JObject
                    [(''title'', JString ''New''), (''contributor[s]'', JArray []), (''description'', JString ''''),
                     (''link'', JString ''a''), (''thumbnail'', JString ''u''), (''digitized'', JBool False),
                     (''genre'', JNull), (''subjects'', JNull)])] (JString ''a'')
   = Some (JObject
                    [(''title'', JString ''New''), (''contributor[s]'', JArray []), (''description'', JString ''''),
                     (''link'', JString ''a''), (''thumbnail'', JString ''u''), (''digitized'', JBool False),
                     (''genre'', JNull), (''subjects'', JNull)])"
proof -
  let ?new = "[(''id'', JString ''a''), (''title'', JString ''New''), (''image_url'', JArray [JString ''u''])]"
  let ?old = "JObject [(''title'', JString ''Old''), (''genre'', JString ''g'')]"
  let ?kvs = "[(''a'', ?old)]"
  let ?fs = "\<lambda>p::string. Parsed (JObject ?kvs)"
  let ?r = "JObject
                    [(''title'', JString ''New''), (''contributor[s]'', JArray []), (''description'', JString ''''),
                     (''link'', JString ''a''), (''thumbnail'', JString ''u''), (''digitized'', JBool False),
                     (''genre'', JNull), (''subjects'', JNull)]"
  have h1: "?fs (query_file ''q'') = Parsed (JObject ?kvs)" by simp
  have h2: "map_of ?kvs ''a'' = Some ?old" by simp
  have h4: "map_of ?new ''id'' = Some (JString ''a'')" by simp
  have h5: "\<forall>item \<in> set []. \<not> id_matches (JString ''a'') item" by simp
  have run: "process_results (\<lambda>r. []) ''q'' ([] @ JObject ?new # []) ?fs
   = (Inr ([JString ''a''], Dict [(JString ''a'', ?r)]),
      ?fs(query_file ''q'' := Parsed (JObject [(''a'', ?r)])))"
    by (simp add: process_results_def loop_body_def info_a of_json_def key_eq_def dumped_def)
  from recurring_id_overwrites_entry [OF h1 h2 run h4 h5] obtain d cs th where d: "Dict [(JString ''a'', ?r)] = Dict d"
    and cs: "contributors ?new = Inr cs" and th: "thumbnail ?new = Inr th"
    and e: "dict_lookup d (JString ''a'') = Some (JObject
             [(''title'', get ?new ''title'' (JString '''')),
              (''contributor[s]'', cs),
              (''description'', get ?new ''description'' (JString '''')),
              (''link'', JString ''a''),
              (''thumbnail'', th),
              (''digitized'', get ?new ''digitized'' (JBool False)),
              (''genre'', get ?new ''genre'' JNull),
              (''subjects'', get ?new ''subject'' JNull)])"
    by blast
  have "cs = JArray []" using cs by (simp add: contributors_def get_def py_or_def)
  moreover have "th = JString ''u''" using th by (simp add: thumbnail_def get_def)
  moreover have "d = [(JString ''a'', ?r)]" using d by simp
  ultimately have "dict_lookup [(JString ''a'', ?r)] (JString ''a'') = Some ?r"
    using e by (simp add: get_def)
  with run h2 h4 show ?thesis by simp
qed

end
